theory Spec2Isabelle
  imports Main "HOL-Library.AList" "HOL-Library.Char_ord" "HOL-Library.List_Lexorder"
begin

section \<open>JavaScript values\<close>

text \<open>
  The three modules (\<^verbatim>\<open>lib/utils/throttle\<close>, \<^verbatim>\<open>lib/utils/router\<close> and the retry wrapper)
  handle untyped JavaScript values: they test them for truthiness, read and write
  properties, and wrap functions. A value is a primitive, a plain object (its own
  enumerable properties, in insertion order) or a function. A function carries its
  \<^verbatim>\<open>name\<close> property, what kind of function it is, and its own enumerable properties.
  Numbers are integers here; prototypes and inherited properties are not modelled.
\<close>

datatype jsval =
    Undefined
  | Null
  | JBool bool
  | JNum int
  | JStr string
  | JObj "(string \<times> jsval) list"
  | JFun string fnkind "(string \<times> jsval) list"
and fnkind =
    App
  | BoundFn jsval jsval
  | ThrottleFn jsval int
  | RetryFn jsval "jsval list"

text \<open>
  \<^verbatim>\<open>App\<close> is a function of the application, \<^verbatim>\<open>BoundFn f o\<close> is \<^verbatim>\<open>bind(f, o)\<close>,
  \<^verbatim>\<open>ThrottleFn fn max\<close> is the closure \<^verbatim>\<open>function() { return run(arguments); }\<close> that
  \<^verbatim>\<open>throttlefn(fn, max)\<close> returns, and \<^verbatim>\<open>RetryFn fn args\<close> is the \<^verbatim>\<open>wrapper\<close> that
  \<^verbatim>\<open>retryfn(fn, retries, min, max, factor, random)\<close> returns, \<^verbatim>\<open>args\<close> being the five
  settings. The name of a bound function is \<^verbatim>\<open>bound\<close>, a space and the name of its
  target, and the name of \<^verbatim>\<open>const wrapper = function() ...\<close> is \<^verbatim>\<open>wrapper\<close>, as in
  ECMAScript 2015.
\<close>

text \<open>Truthiness, as \<^verbatim>\<open>if(v)\<close>, \<^verbatim>\<open>!v\<close>, \<^verbatim>\<open>a || b\<close> and \<^verbatim>\<open>c ? a : b\<close> test it.\<close>

fun truthy :: "jsval \<Rightarrow> bool" where
  "truthy Undefined = False"
| "truthy Null = False"
| "truthy (JBool b) = b"
| "truthy (JNum n) = (n \<noteq> 0)"
| "truthy (JStr s) = (s \<noteq> [])"
| "truthy (JObj ps) = True"
| "truthy (JFun n k ps) = True"

definition js_or :: "jsval \<Rightarrow> jsval \<Rightarrow> jsval" where
  "js_or a b = (if truthy a then a else b)"

text \<open>
  Reading a property \<^verbatim>\<open>v.k\<close>. On \<^verbatim>\<open>undefined\<close> and \<^verbatim>\<open>null\<close> the read raises a TypeError:
  the callers below test \<open>nullish\<close> first. A primitive has none of the properties the
  modules read (\<^verbatim>\<open>status\<close>, \<^verbatim>\<open>statusCode\<close>, \<^verbatim>\<open>name\<close>, \<^verbatim>\<open>fname\<close>).
\<close>

fun nullish :: "jsval \<Rightarrow> bool" where
  "nullish Undefined = True"
| "nullish Null = True"
| "nullish v = False"

fun get_prop :: "jsval \<Rightarrow> string \<Rightarrow> jsval" where
  "get_prop (JObj ps) k = (case map_of ps k of None \<Rightarrow> Undefined | Some v \<Rightarrow> v)"
| "get_prop (JFun n f ps) k =
     (if k = ''name'' then JStr n
      else case map_of ps k of None \<Rightarrow> Undefined | Some v \<Rightarrow> v)"
| "get_prop v k = Undefined"

text \<open>
  Writing a property \<^verbatim>\<open>v.k = x\<close>. The modules are in strict mode, where creating a
  property on a primitive raises a TypeError (\<open>None\<close>).
\<close>

fun set_prop :: "jsval \<Rightarrow> string \<Rightarrow> jsval \<Rightarrow> jsval option" where
  "set_prop (JObj ps) k x = Some (JObj (AList.update k x ps))"
| "set_prop (JFun n f ps) k x = Some (JFun n f (AList.update k x ps))"
| "set_prop v k x = None"

text \<open>
  String conversion, as \<^verbatim>\<open>+\<close> with a string operand performs it. A plain object gives
  \<^verbatim>\<open>[object Object]\<close>; the source text of a function is not part of this model, so a
  function is rendered by its name only.
\<close>

fun digits :: "nat \<Rightarrow> string" where
  "digits n =
     (if n < 10 then [char_of (48 + n)]
      else digits (n div 10) @ [char_of (48 + n mod 10)])"

fun to_string :: "jsval \<Rightarrow> string" where
  "to_string Undefined = ''undefined''"
| "to_string Null = ''null''"
| "to_string (JBool b) = (if b then ''true'' else ''false'')"
| "to_string (JNum n) = (if n < 0 then ''-'' @ digits (nat (- n)) else digits (nat n))"
| "to_string (JStr s) = s"
| "to_string (JObj ps) = ''[object Object]''"
| "to_string (JFun n k ps) = ''function '' @ n"

section \<open>The underscore helpers the wrappers use\<close>

text \<open>
  \<^verbatim>\<open>isFunction\<close>, \<^verbatim>\<open>pairs\<close>, \<^verbatim>\<open>object\<close>, \<^verbatim>\<open>functions\<close>, \<^verbatim>\<open>extend\<close> and \<^verbatim>\<open>bind\<close> come from the
  underscore library. \<^verbatim>\<open>pairs\<close> lists the own enumerable properties of an object or
  function (none for a primitive), \<^verbatim>\<open>object\<close> builds an object from a list of pairs,
  \<^verbatim>\<open>functions\<close> lists the sorted names of the function-valued properties, and
  \<^verbatim>\<open>extend\<close> assigns every property of the source to the destination and returns the
  destination. \<^verbatim>\<open>functions\<close> and \<^verbatim>\<open>extend\<close> are \<open>functions_of\<close> and \<open>extend_js\<close> here.
\<close>

definition isFunction :: "jsval \<Rightarrow> bool" where
  "isFunction v = (case v of JFun n k ps \<Rightarrow> True | _ \<Rightarrow> False)"

definition pairs :: "jsval \<Rightarrow> (string \<times> jsval) list" where
  "pairs v = (case v of JObj ps \<Rightarrow> ps | JFun n k ps \<Rightarrow> ps | _ \<Rightarrow> [])"

definition assign_all :: "(string \<times> jsval) list \<Rightarrow> (string \<times> jsval) list \<Rightarrow> (string \<times> jsval) list" where
  "assign_all kvs ps = fold (\<lambda>kv. AList.update (fst kv) (snd kv)) kvs ps"

definition object :: "(string \<times> jsval) list \<Rightarrow> jsval" where
  "object kvs = JObj (assign_all kvs [])"

definition functions_of :: "jsval \<Rightarrow> string list" where
  "functions_of v = sort (map fst (filter (\<lambda>kv. isFunction (snd kv)) (pairs v)))"

definition extend_js :: "jsval \<Rightarrow> jsval \<Rightarrow> jsval" where
  "extend_js dst src =
     (case dst of
        JObj ps \<Rightarrow> JObj (assign_all (pairs src) ps)
      | JFun n k ps \<Rightarrow> JFun n k (assign_all (pairs src) ps)
      | _ \<Rightarrow> dst)"

definition bind :: "jsval \<Rightarrow> jsval \<Rightarrow> jsval" where
  "bind f ob = JFun (''bound '' @ to_string (get_prop f ''name'')) (BoundFn f ob) []"

section \<open>The throttle: \<^verbatim>\<open>lib/utils/throttle/index.js\<close>\<close>

subsection \<open>Wrapping one function or a named collection\<close>

text \<open>
  \<^verbatim>\<open>throttlefn(fn, max)\<close> returns an anonymous closure over \<^verbatim>\<open>fn\<close>, \<^verbatim>\<open>max\<close> and two fresh
  variables, \<^verbatim>\<open>running = 0\<close> and \<^verbatim>\<open>queue = []\<close>. The closure has no property of its own:
  nothing is copied from \<^verbatim>\<open>fn\<close>.
\<close>

definition throttlefn :: "jsval \<Rightarrow> int \<Rightarrow> jsval" where
  "throttlefn fn mx = JFun [] (ThrottleFn fn mx) []"

text \<open>
  \<^verbatim>\<open>nbind(o, k)\<close> binds \<^verbatim>\<open>o[k]\<close> to \<^verbatim>\<open>o\<close> and stores on the bound function the property
  \<^verbatim>\<open>fname: (o.name || o.fname ? (o.name || o.fname) + '.' : '') + (o[k].name || o[k].fname || k)\<close>.
\<close>

definition nbind :: "jsval \<Rightarrow> string \<Rightarrow> jsval" where
  "nbind ob k =
     (let owner = js_or (get_prop ob ''name'') (get_prop ob ''fname'');
          member = js_or (js_or (get_prop (get_prop ob k) ''name'')
                                (get_prop (get_prop ob k) ''fname'')) (JStr k)
      in extend_js (bind (get_prop ob k) ob)
           (JObj [(''fname'',
              JStr ((if truthy owner then to_string owner @ ''.'' else []) @ to_string member))]))"

text \<open>
  \<^verbatim>\<open>throttle(fn, max)\<close>: the wrapper of \<^verbatim>\<open>fn\<close> itself when it is a function (an empty
  object otherwise), extended with every property of \<^verbatim>\<open>fn\<close> as it is, and then with
  one \<^verbatim>\<open>throttlefn(nbind(fn, k), max)\<close> for every function-valued property \<^verbatim>\<open>k\<close>. Each
  call of \<^verbatim>\<open>throttlefn\<close> creates its own \<^verbatim>\<open>running\<close> and \<^verbatim>\<open>queue\<close>.
\<close>

definition throttle :: "jsval \<Rightarrow> int \<Rightarrow> jsval" where
  "throttle fn mx =
     extend_js
       (extend_js (if isFunction fn then throttlefn fn mx else JObj []) (object (pairs fn)))
       (object (map (\<lambda>k. (k, throttlefn (nbind fn k) mx)) (functions_of fn)))"

subsection \<open>What one throttled function does\<close>

text \<open>
  The state of one closure of \<^verbatim>\<open>throttlefn\<close>. \<open>running\<close> and \<open>queue\<close> are its two
  variables; \<open>ticks\<close> holds the calls handed to \<^verbatim>\<open>process.nextTick\<close> and not yet run,
  oldest first. The other fields observe the closure from outside: \<open>started\<close> lists
  the calls on which \<^verbatim>\<open>fn\<close> was applied, in order; \<open>forwarded\<close> lists the invocations of
  the callers' callbacks; \<open>inflight\<close> holds the calls on which \<^verbatim>\<open>fn\<close> was applied and
  whose intercepting callback has not been invoked yet; \<open>in_cb\<close> counts the callers'
  callbacks that were entered and have not returned or thrown; \<open>leaked\<close> counts the
  callers' callbacks that threw. A call descriptor (\<^verbatim>\<open>callargs\<close>: the arguments and the
  caller's callback) is a value of type \<open>'c\<close>.
\<close>

record 'c tstate =
  running :: int
  queue :: "'c list"
  ticks :: "'c list"
  started :: "'c list"
  forwarded :: "('c \<times> jsval \<times> jsval) list"
  inflight :: "'c list"
  in_cb :: nat
  leaked :: nat

definition init :: "'c tstate" where
  "init = \<lparr>running = 0, queue = [], ticks = [], started = [], forwarded = [],
           inflight = [], in_cb = 0, leaked = 0\<rparr>"

text \<open>
  \<^verbatim>\<open>run(callargs)\<close>, lines 26 to 37: queue the call when \<^verbatim>\<open>running === max\<close>, otherwise
  count it and apply \<^verbatim>\<open>fn\<close> to the arguments and the intercepting callback.
\<close>

definition run :: "int \<Rightarrow> 'c \<Rightarrow> 'c tstate \<Rightarrow> 'c tstate" where
  "run mx callargs s =
     (if running s = mx then s\<lparr>queue := queue s @ [callargs]\<rparr>
      else s\<lparr>running := running s + 1,
             started := started s @ [callargs],
             inflight := inflight s @ [callargs]\<rparr>)"

text \<open>
  The intercepting callback, lines 37 to 49. Its first statement is the call of the
  caller's callback, \<^verbatim>\<open>cb(err, val)\<close> (line 40). That callback is code of the caller: it
  may call the throttled function again before it returns, and it may throw. So the
  intercepting callback is three transitions: entering \<^verbatim>\<open>cb\<close>; the statements after
  \<^verbatim>\<open>cb\<close> has returned (lines 43 to 48: decrement \<^verbatim>\<open>running\<close>, and when the queue is not
  empty shift its head and hand \<^verbatim>\<open>() => run(next)\<close> to \<^verbatim>\<open>process.nextTick\<close>); and \<^verbatim>\<open>cb\<close>
  throwing, which skips lines 43 to 48, as nothing catches the exception.
\<close>

definition callback_enter :: "'c \<Rightarrow> jsval \<Rightarrow> jsval \<Rightarrow> 'c tstate \<Rightarrow> 'c tstate" where
  "callback_enter c err val s =
     s\<lparr>forwarded := forwarded s @ [(c, err, val)],
       inflight := remove1 c (inflight s),
       in_cb := in_cb s + 1\<rparr>"

definition callback_return :: "'c tstate \<Rightarrow> 'c tstate" where
  "callback_return s =
     (case queue s of
        [] \<Rightarrow> s\<lparr>running := running s - 1, in_cb := in_cb s - 1\<rparr>
      | nxt # rest \<Rightarrow>
          s\<lparr>running := running s - 1, in_cb := in_cb s - 1,
            queue := rest, ticks := ticks s @ [nxt]\<rparr>)"

definition callback_throw :: "'c tstate \<Rightarrow> 'c tstate" where
  "callback_throw s = s\<lparr>in_cb := in_cb s - 1, leaked := leaked s + 1\<rparr>"

text \<open>The scheduler runs the oldest pending \<^verbatim>\<open>() => run(next)\<close> (line 47).\<close>

definition tick :: "int \<Rightarrow> 'c tstate \<Rightarrow> 'c tstate" where
  "tick mx s =
     (case ticks s of
        [] \<Rightarrow> s
      | c # rest \<Rightarrow> run mx c (s\<lparr>ticks := rest\<rparr>))"

text \<open>
  What can happen to a throttled function: a caller calls it (\<open>Call\<close>), the wrapped
  function invokes the intercepting callback of a call (\<open>Done\<close>), the caller's callback
  returns (\<open>Return\<close>) or throws (\<open>Throw\<close>), the scheduler takes its next turn (\<open>Tick\<close>).
\<close>

datatype 'c event = Call 'c | Done 'c jsval jsval | Return | Throw | Tick

fun step :: "int \<Rightarrow> 'c event \<Rightarrow> 'c tstate \<Rightarrow> 'c tstate" where
  "step mx (Call c) s = run mx c s"
| "step mx (Done c err val) s = callback_enter c err val s"
| "step mx Return s = callback_return s"
| "step mx Throw s = callback_throw s"
| "step mx Tick s = tick mx s"

definition exec :: "int \<Rightarrow> 'c event list \<Rightarrow> 'c tstate \<Rightarrow> 'c tstate" where
  "exec mx evs s = fold (step mx) evs s"

text \<open>
  The events the environment can produce: only a call in flight completes, only an
  entered callback returns or throws, and the scheduler only runs what it was handed.
\<close>

fun enabled :: "'c tstate \<Rightarrow> 'c event \<Rightarrow> bool" where
  "enabled s (Call c) = True"
| "enabled s (Done c err val) = (c \<in> set (inflight s))"
| "enabled s Return = (0 < in_cb s)"
| "enabled s Throw = (0 < in_cb s)"
| "enabled s Tick = (ticks s \<noteq> [])"

fun feasible :: "int \<Rightarrow> 'c tstate \<Rightarrow> 'c event list \<Rightarrow> bool" where
  "feasible mx s [] = True"
| "feasible mx s (e # es) = (enabled s e \<and> feasible mx (step mx e s) es)"

text \<open>
  A wrapped collection: every function-valued member has a closure of its own, so the
  state of the collection is one state per member name, and an event names the member
  it happens to.
\<close>

definition cstep :: "int \<Rightarrow> string \<times> 'c event \<Rightarrow> (string \<Rightarrow> 'c tstate) \<Rightarrow> (string \<Rightarrow> 'c tstate)" where
  "cstep mx ke S = S(fst ke := step mx (snd ke) (S (fst ke)))"

definition cexec :: "int \<Rightarrow> (string \<times> 'c event) list \<Rightarrow> (string \<Rightarrow> 'c tstate) \<Rightarrow> (string \<Rightarrow> 'c tstate)" where
  "cexec mx evs S = fold (cstep mx) evs S"

definition total_inflight :: "string list \<Rightarrow> (string \<Rightarrow> 'c tstate) \<Rightarrow> nat" where
  "total_inflight ks S = sum_list (map (\<lambda>k. length (inflight (S k))) ks)"

fun cfeasible :: "int \<Rightarrow> (string \<Rightarrow> 'c tstate) \<Rightarrow> (string \<times> 'c event) list \<Rightarrow> bool" where
  "cfeasible mx S [] = True"
| "cfeasible mx S (ke # es) = (enabled (S (fst ke)) (snd ke) \<and> cfeasible mx (cstep mx ke S) es)"

text \<open>
  The accounting that ties the counter to the observations: every unit of \<open>running\<close>
  is a call in flight, a caller's callback that is executing, or a callback that threw.
\<close>

definition accounted :: "'c tstate \<Rightarrow> bool" where
  "accounted s = (running s = int (length (inflight s)) + int (in_cb s) + int (leaked s))"

section \<open>The retry wrapper\<close>

text \<open>
  \<^verbatim>\<open>options(retries, min, max, factor, random)\<close> fills in the defaults:
  \<^verbatim>\<open>def(v, d)\<close> is \<^verbatim>\<open>v === undefined ? d : v\<close>.
\<close>

record retry_options =
  retries :: jsval
  minTimeout :: jsval
  maxTimeout :: jsval
  factor :: jsval
  randomize :: jsval

definition def :: "jsval \<Rightarrow> jsval \<Rightarrow> jsval" where
  "def v d = (if v = Undefined then d else v)"

definition options :: "jsval \<Rightarrow> jsval \<Rightarrow> jsval \<Rightarrow> jsval \<Rightarrow> jsval \<Rightarrow> retry_options" where
  "options rt mn mx fc random =
     \<lparr>retries = def rt (JNum 5), minTimeout = def mn (JNum 50), maxTimeout = def mx (JNum 500),
      factor = def fc (JNum 2), randomize = def random (JBool True)\<rparr>"

text \<open>
  Modelled from the spec: the operation object of the \<^verbatim>\<open>retry\<close> package
  (\<^verbatim>\<open>_retry.operation(opt)\<close>, with \<^verbatim>\<open>op.attempt\<close>, \<^verbatim>\<open>op.retry\<close> and \<^verbatim>\<open>op.errors\<close>), which is not
  among the sources. The spec describes it as the Retry State of one invocation: the
  attempt index, the ordered list of prior errors and the policy. \<^verbatim>\<open>retries\<close> is an
  integer, at least 0; total attempts are at most \<^verbatim>\<open>retries + 1\<close>. On an error the
  error is appended to the list; if attempts remain the next attempt is scheduled and
  the answer is true; if they are exhausted, or there was no error, the answer is
  false. The waits between the attempts are not modelled.
\<close>

record retry_state =
  attempt_index :: nat
  errors :: "jsval list"

definition operation :: retry_state where
  "operation = \<lparr>attempt_index = 0, errors = []\<rparr>"

definition max_retries :: "retry_options \<Rightarrow> nat" where
  "max_retries opt = (case retries opt of JNum n \<Rightarrow> nat n | _ \<Rightarrow> 0)"

definition op_retry :: "retry_options \<Rightarrow> jsval \<Rightarrow> retry_state \<Rightarrow> bool \<times> retry_state" where
  "op_retry opt err st =
     (if \<not> truthy err then (False, st)
      else if attempt_index st < max_retries opt
      then (True, st\<lparr>errors := errors st @ [err], attempt_index := attempt_index st + 1\<rparr>)
      else (False, st\<lparr>errors := errors st @ [err]\<rparr>))"

definition first_error :: "retry_state \<Rightarrow> jsval" where
  "first_error st = (case errors st of [] \<Rightarrow> Undefined | e # es \<Rightarrow> e)"

text \<open>
  One call of the wrapper that \<^verbatim>\<open>retryfn\<close> returns. The application function is given
  by what it passes to the intercepting callback on each attempt: \<open>fn k\<close> is the pair
  \<^verbatim>\<open>(err, val)\<close> of attempt \<open>k\<close>. The trace counts the applications of the function and
  lists the invocations of the caller's callback \<^verbatim>\<open>cb\<close>. The intercepting callback
  returns when \<^verbatim>\<open>op.retry(err)\<close> is true, and otherwise calls
  \<^verbatim>\<open>cb(err ? op.errors()[0] : undefined, val)\<close>.
\<close>

record retry_trace =
  invocations :: nat
  callbacks :: "(jsval \<times> jsval) list"

function attempts :: "retry_options \<Rightarrow> (nat \<Rightarrow> jsval \<times> jsval) \<Rightarrow> retry_state \<Rightarrow> retry_trace \<Rightarrow> retry_trace" where
  "attempts opt fn st tr =
     (if fst (op_retry opt (fst (fn (attempt_index st))) st)
      then attempts opt fn (snd (op_retry opt (fst (fn (attempt_index st))) st))
             (tr\<lparr>invocations := invocations tr + 1\<rparr>)
      else tr\<lparr>invocations := invocations tr + 1,
              callbacks := callbacks tr @
                [(if truthy (fst (fn (attempt_index st)))
                  then first_error (snd (op_retry opt (fst (fn (attempt_index st))) st))
                  else Undefined,
                  snd (fn (attempt_index st)))]\<rparr>)"
  by pat_completeness auto
termination
  by (relation "measure (\<lambda>(opt, fn, st, tr). max_retries opt - attempt_index st)")
     (auto simp: op_retry_def split: if_splits)

declare attempts.simps [simp del]

definition retryfn :: "(nat \<Rightarrow> jsval \<times> jsval) \<Rightarrow> jsval \<Rightarrow> jsval \<Rightarrow> jsval \<Rightarrow> jsval \<Rightarrow> jsval \<Rightarrow> retry_trace" where
  "retryfn fn rt mn mx fc random =
     attempts (options rt mn mx fc random) fn operation \<lparr>invocations = 0, callbacks = []\<rparr>"

text \<open>
  The value that \<^verbatim>\<open>retryfn\<close> returns: the wrapper, with
  \<^verbatim>\<open>wrapper.fname = fn.fname || fn.name\<close> (lines 137 and 172). \<^verbatim>\<open>retry\<close> wraps one function
  or a named collection as \<^verbatim>\<open>throttle\<close> does (lines 182 to 185).
\<close>

definition retryfn_wrapper :: "jsval \<Rightarrow> jsval list \<Rightarrow> jsval" where
  "retryfn_wrapper fn args =
     JFun ''wrapper'' (RetryFn fn args)
       [(''fname'', js_or (get_prop fn ''fname'') (get_prop fn ''name''))]"

definition retry :: "jsval \<Rightarrow> jsval list \<Rightarrow> jsval" where
  "retry fn args =
     extend_js
       (extend_js (if isFunction fn then retryfn_wrapper fn args else JObj []) (object (pairs fn)))
       (object (map (\<lambda>k. (k, retryfn_wrapper (nbind fn k) args)) (functions_of fn)))"

section \<open>The router: \<^verbatim>\<open>lib/utils/router/index.js\<close>\<close>

text \<open>
  A middleware is called as \<^verbatim>\<open>(req, res, next)\<close> or as \<^verbatim>\<open>(err, req, res, next)\<close>. What the
  adapter can change is the two objects and the calls of \<^verbatim>\<open>next\<close>, so the state of a
  request holds the request, the response and the calls of \<^verbatim>\<open>next\<close> so far.
\<close>

datatype next_call = Next | NextErr jsval

datatype form = ReqResNext | ErrReqResNext

record rstate =
  req :: jsval
  res :: jsval
  nexts :: "next_call list"

definition call_next :: "next_call \<Rightarrow> rstate \<Rightarrow> rstate" where
  "call_next c st = st\<lparr>nexts := nexts st @ [c]\<rparr>"

definition type_error :: jsval where
  "type_error = JObj [(''name'', JStr ''TypeError'')]"

text \<open>
  \<^verbatim>\<open>error(err, type)\<close>, lines 37 to 41:
  \<^verbatim>\<open>if(!trusted && !err.status && !err.statusCode) err.bailout = true; next(err);\<close>.
  The result is \<open>Inl\<close> of the exception when a statement raises one: reading a
  property of \<^verbatim>\<open>undefined\<close> or \<^verbatim>\<open>null\<close>, or setting one on a primitive.
\<close>

definition error :: "bool \<Rightarrow> jsval \<Rightarrow> rstate \<Rightarrow> jsval + rstate" where
  "error trusted err st =
     (if trusted then Inr (call_next (NextErr err) st)
      else if nullish err then Inl type_error
      else if \<not> truthy (get_prop err ''status'') \<and> \<not> truthy (get_prop err ''statusCode'')
      then (case set_prop err ''bailout'' (JBool True) of
              None \<Rightarrow> Inl type_error
            | Some marked \<Rightarrow> Inr (call_next (NextErr marked) st))
      else Inr (call_next (NextErr err) st))"

text \<open>
  The callback the adapter passes to the handler, lines 46 to 56. \<^verbatim>\<open>res\<close> is
  \<^verbatim>\<open>arguments[1]\<close> (line 31): the response in the \<^verbatim>\<open>(req, res, next)\<close> form, the request in
  the \<^verbatim>\<open>(err, req, res, next)\<close> form.
\<close>

definition callback :: "bool \<Rightarrow> form \<Rightarrow> jsval \<Rightarrow> jsval \<Rightarrow> rstate \<Rightarrow> jsval + rstate" where
  "callback trusted fm err v st =
     (if truthy err then error trusted err st
      else if truthy v then
        (case fm of
           ReqResNext \<Rightarrow>
             (case set_prop (res st) ''value'' v of
                None \<Rightarrow> Inl type_error
              | Some r \<Rightarrow> Inr (call_next Next (st\<lparr>res := r\<rparr>)))
         | ErrReqResNext \<Rightarrow>
             (case set_prop (req st) ''value'' v of
                None \<Rightarrow> Inl type_error
              | Some r \<Rightarrow> Inr (call_next Next (st\<lparr>req := r\<rparr>))))
      else Inr st)"

text \<open>
  The middleware that \<^verbatim>\<open>callbackify(m, trusted)\<close> returns, lines 29 to 61, run on one
  request. The handler is given by what it does while \<^verbatim>\<open>mfunc.apply\<close> runs: it invokes
  its callback some number of times, and it returns or raises. An exception that
  leaves the callback passes through the handler, which is taken not to catch it, and
  reaches \<^verbatim>\<open>catch(exc)\<close> as the handler's own would.
\<close>

datatype haction = Callback jsval jsval | Raise jsval

fun callbackify :: "bool \<Rightarrow> form \<Rightarrow> haction list \<Rightarrow> rstate \<Rightarrow> jsval + rstate" where
  "callbackify trusted fm [] st = Inr st"
| "callbackify trusted fm (Raise exc # rest) st = error trusted exc st"
| "callbackify trusted fm (Callback err v # rest) st =
     (case callback trusted fm err v st of
        Inl exc \<Rightarrow> error trusted exc st
      | Inr st' \<Rightarrow> callbackify trusted fm rest st')"

text \<open>
  \<^verbatim>\<open>catchall(trusted)\<close>, lines 95 to 119: the listener of the domain's \<^verbatim>\<open>error\<close> event
  applies the same rule as \<^verbatim>\<open>error\<close> and calls \<^verbatim>\<open>next(err)\<close>; the middleware itself runs
  \<^verbatim>\<open>next\<close> inside the domain. A request is given by the errors its domain catches.
\<close>

definition on_error :: "bool \<Rightarrow> jsval \<Rightarrow> rstate \<Rightarrow> jsval + rstate" where
  "on_error trusted err st =
     (if trusted then Inr (call_next (NextErr err) st)
      else if nullish err then Inl type_error
      else if \<not> truthy (get_prop err ''status'') \<and> \<not> truthy (get_prop err ''statusCode'')
      then (case set_prop err ''bailout'' (JBool True) of
              None \<Rightarrow> Inl type_error
            | Some marked \<Rightarrow> Inr (call_next (NextErr marked) st))
      else Inr (call_next (NextErr err) st))"

fun on_errors :: "bool \<Rightarrow> jsval list \<Rightarrow> rstate \<Rightarrow> jsval + rstate" where
  "on_errors trusted [] st = Inr st"
| "on_errors trusted (e # es) st =
     (case on_error trusted e st of Inl exc \<Rightarrow> Inl exc | Inr st' \<Rightarrow> on_errors trusted es st')"

definition catchall :: "bool \<Rightarrow> jsval list \<Rightarrow> rstate \<Rightarrow> jsval + rstate" where
  "catchall trusted caught st = on_errors trusted caught (call_next Next st)"

section \<open>Properties of the throttle\<close>

lemmas tdefs = run_def callback_enter_def callback_return_def callback_throw_def tick_def

subsection \<open>The counter and the accounting\<close>

lemma running_step_le: "running s \<le> mx \<Longrightarrow> running (step mx e s) \<le> mx"
  by (cases e) (auto simp: tdefs split: list.splits)

lemma running_exec_le: "running s \<le> mx \<Longrightarrow> running (exec mx evs s) \<le> mx"
  unfolding exec_def by (induction evs arbitrary: s) (simp_all add: running_step_le)

lemma step_accounted: "accounted s \<Longrightarrow> enabled s e \<Longrightarrow> accounted (step mx e s)"
proof (cases e)
  case (Done c err val)
  assume a: "accounted s" and en: "enabled s e"
  from en Done have "c \<in> set (inflight s)" by simp
  then obtain n where "length (inflight s) = Suc n"
    by (cases "inflight s") auto
  with a Done \<open>c \<in> set (inflight s)\<close> show ?thesis
    by (simp add: accounted_def callback_enter_def length_remove1)
qed (auto simp: accounted_def tdefs split: list.splits)

lemma exec_accounted: "accounted s \<Longrightarrow> feasible mx s evs \<Longrightarrow> accounted (exec mx evs s)"
  unfolding exec_def by (induction evs arbitrary: s) (simp_all add: step_accounted)

lemma leaked_step: "leaked (step mx e s) = leaked s + (if e = Throw then 1 else 0)"
  by (cases e) (auto simp: tdefs split: list.splits)

lemma leaked_exec: "leaked (exec mx evs s) = leaked s + count_list evs Throw"
  unfolding exec_def by (induction evs arbitrary: s) (simp_all add: leaked_step)

lemma cexec_members:
  "\<forall>k. running (S k) \<le> mx \<and> accounted (S k) \<Longrightarrow> cfeasible mx S evs \<Longrightarrow>
   running (cexec mx evs S k) \<le> mx \<and> accounted (cexec mx evs S k)"
  unfolding cexec_def
proof (induction evs arbitrary: S)
  case Nil
  then show ?case by simp
next
  case (Cons ke evs)
  have "\<forall>k. running (cstep mx ke S k) \<le> mx \<and> accounted (cstep mx ke S k)"
    using Cons.prems by (simp add: cstep_def running_step_le step_accounted)
  moreover have "cfeasible mx (cstep mx ke S) evs" using Cons.prems by simp
  ultimately show ?case using Cons.IH by simp
qed

lemma sum_list_le: "(\<And>k. int (f k) \<le> mx) \<Longrightarrow> int (sum_list (map f ks)) \<le> int (length ks) * mx"
  by (induction ks) (auto simp: algebra_simps add_mono)

subsection \<open>The shape of a wrapped collection\<close>

lemma map_of_assign_all: "map_of (assign_all kvs ps) = map_of ps ++ map_of (rev kvs)"
  unfolding assign_all_def
  by (induction kvs arbitrary: ps) (auto simp: update_conv' map_add_upd_left)

lemma update_new_key: "k \<notin> fst ` set ps \<Longrightarrow> AList.update k v ps = ps @ [(k, v)]"
  by (induction ps) auto

lemma assign_all_new:
  "distinct (map fst kvs) \<Longrightarrow> fst ` set kvs \<inter> fst ` set ps = {} \<Longrightarrow> assign_all kvs ps = ps @ kvs"
  unfolding assign_all_def
proof (induction kvs arbitrary: ps)
  case Nil
  then show ?case by simp
next
  case (Cons kv kvs)
  have new: "fst kv \<notin> fst ` set ps" using Cons.prems(2) by auto
  have "fst ` set kvs \<inter> fst ` set (ps @ [kv]) = {}"
    using Cons.prems by auto
  with Cons.IH [of "ps @ [kv]"] Cons.prems(1) new show ?case
    by (simp add: update_new_key)
qed

lemma keys_assign_all_old:
  "fst ` set kvs \<subseteq> fst ` set ps \<Longrightarrow> map fst (assign_all kvs ps) = map fst ps"
  unfolding assign_all_def
proof (induction kvs arbitrary: ps)
  case Nil
  then show ?case by simp
next
  case (Cons kv kvs)
  have keys: "map fst (AList.update (fst kv) (snd kv) ps) = map fst ps"
    using Cons.prems by (simp add: update_keys)
  then have "fst ` set (AList.update (fst kv) (snd kv) ps) = fst ` set ps"
    by (metis set_map)
  with Cons.IH [of "AList.update (fst kv) (snd kv) ps"] Cons.prems keys show ?case
    by simp
qed

lemma object_distinct: "distinct (map fst kvs) \<Longrightarrow> object kvs = JObj kvs"
  by (simp add: object_def assign_all_new)

lemma throttle_object:
  assumes "distinct (map fst ps)"
  shows "throttle (JObj ps) mx
         = JObj (assign_all (map (\<lambda>k. (k, throttlefn (nbind (JObj ps) k) mx)) (functions_of (JObj ps))) ps)"
proof -
  have "distinct (functions_of (JObj ps))"
    using assms by (simp add: functions_of_def pairs_def distinct_map_filter)
  then have "distinct (map fst (map (\<lambda>k. (k, throttlefn (nbind (JObj ps) k) mx)) (functions_of (JObj ps))))"
    by (simp add: comp_def)
  then have o2: "object (map (\<lambda>k. (k, throttlefn (nbind (JObj ps) k) mx)) (functions_of (JObj ps)))
             = JObj (map (\<lambda>k. (k, throttlefn (nbind (JObj ps) k) mx)) (functions_of (JObj ps)))"
    by (rule object_distinct)
  have o1: "object (pairs (JObj ps)) = JObj ps"
    using assms by (simp add: pairs_def object_distinct)
  have inner: "extend_js (JObj []) (JObj ps) = JObj ps"
    using assms by (simp add: extend_js_def pairs_def assign_all_new)
  show ?thesis
    unfolding throttle_def o1 o2 by (simp add: isFunction_def inner) (simp add: extend_js_def pairs_def)
qed

lemma throttle_object_keys:
  assumes "distinct (map fst ps)"
  shows "map fst (pairs (throttle (JObj ps) mx)) = map fst ps"
proof -
  have "fst ` set (map (\<lambda>k. (k, throttlefn (nbind (JObj ps) k) mx)) (functions_of (JObj ps))) \<subseteq> fst ` set ps"
    by (force simp: functions_of_def pairs_def)
  then show ?thesis
    unfolding throttle_object [OF assms] pairs_def by (simp add: keys_assign_all_old del: set_map)
qed

lemma throttle_object_member:
  assumes "distinct (map fst ps)" and "map_of ps k = Some v"
  shows "get_prop (throttle (JObj ps) mx) k
         = (if isFunction v then throttlefn (nbind (JObj ps) k) mx else v)"
proof -
  let ?ks = "functions_of (JObj ps)"
  let ?w = "\<lambda>k. throttlefn (nbind (JObj ps) k) mx"
  have kv: "(k, v) \<in> set ps" using assms(2) by (rule map_of_SomeD)
  have mem: "k \<in> set ?ks \<longleftrightarrow> isFunction v"
  proof
    assume "k \<in> set ?ks"
    then obtain b where "(k, b) \<in> set ps" and "isFunction b"
      by (auto simp: functions_of_def pairs_def)
    then show "isFunction v" using assms(1) kv by (auto dest: eq_key_imp_eq_value)
  next
    assume "isFunction v"
    then show "k \<in> set ?ks" using kv by (force simp: functions_of_def pairs_def)
  qed
  have "map_of (rev (map (\<lambda>k. (k, ?w k)) ?ks)) k = (if k \<in> set ?ks then Some (?w k) else None)"
    by (simp add: rev_map map_of_map_restrict restrict_map_def)
  then have "map_of (assign_all (map (\<lambda>k. (k, ?w k)) ?ks) ps) k
             = (if isFunction v then Some (?w k) else Some v)"
    using assms(2) mem by (simp add: map_of_assign_all map_add_def)
  then show ?thesis
    unfolding throttle_object [OF assms(1)] by simp
qed

subsection \<open>The claims about the throttle\<close>

text \<open>
  Claim C1, as amended. \<^verbatim>\<open>throttle(fn, max)\<close> of a named collection gives a collection
  of the same names in the same order; a member that is not a function is returned
  unchanged, and a member that is a function is replaced by
  \<^verbatim>\<open>throttlefn(nbind(fn, k), max)\<close>, a closure with a counter and a queue of its own.
  All closures have the same limit, and each keeps its own count within it: whatever
  happens to the collection, the running count of every member and the number of its
  calls in flight stay at most \<^verbatim>\<open>max\<close>, so the calls in flight over any members
  \<open>ks\<close> are at most \<^verbatim>\<open>max\<close> times their number.
\<close>

theorem throttle_members_have_own_counter:
  assumes "distinct (map fst ps)" and "0 \<le> mx" and "cfeasible mx (\<lambda>k. init) evs"
  shows "map fst (pairs (throttle (JObj ps) mx)) = map fst ps
       \<and> (\<forall>k v. map_of ps k = Some v \<longrightarrow>
            get_prop (throttle (JObj ps) mx) k
              = (if isFunction v then throttlefn (nbind (JObj ps) k) mx else v))
       \<and> (\<forall>k. running (cexec mx evs (\<lambda>k. init) k) \<le> mx
              \<and> int (length (inflight (cexec mx evs (\<lambda>k. init) k))) \<le> mx)
       \<and> int (total_inflight ks (cexec mx evs (\<lambda>k. init))) \<le> int (length ks) * mx"
proof -
  have start: "\<forall>k. running ((\<lambda>k. init :: 'a tstate) k) \<le> mx \<and> accounted ((\<lambda>k. init :: 'a tstate) k)"
    using assms(2) by (simp add: init_def accounted_def)
  have each: "running (cexec mx evs (\<lambda>k. init) k) \<le> mx \<and> accounted (cexec mx evs (\<lambda>k. init) k)" for k
    using start assms(3) by (rule cexec_members)
  have fl: "int (length (inflight (cexec mx evs (\<lambda>k. init) k))) \<le> mx" for k
    using each [of k] by (simp add: accounted_def)
  have "int (sum_list (map (\<lambda>k. length (inflight (cexec mx evs (\<lambda>k. init) k))) ks)) \<le> int (length ks) * mx"
    using fl by (rule sum_list_le)
  then show ?thesis
    using each fl assms(1) by (simp add: total_inflight_def throttle_object_keys throttle_object_member)
qed

theorem throttle_members_have_own_counter_witness:
  "distinct (map fst [(''get'', JFun ''get'' App []), (''limit'', JNum 5)])
   \<and> (0::int) \<le> 1
   \<and> cfeasible 1 (\<lambda>k. init) [(''get'', Call (1::nat)), (''get'', Call 2)]
   \<and> get_prop (throttle (JObj [(''get'', JFun ''get'' App []), (''limit'', JNum 5)]) 1) ''limit'' = JNum 5
   \<and> isFunction (get_prop (throttle (JObj [(''get'', JFun ''get'' App []), (''limit'', JNum 5)]) 1) ''get'')
   \<and> running (cexec 1 [(''get'', Call (1::nat)), (''get'', Call 2)] (\<lambda>k. init) ''get'') = 1
   \<and> int (total_inflight [''get''] (cexec 1 [(''get'', Call (1::nat)), (''get'', Call 2)] (\<lambda>k. init)))
        \<le> int (length [''get'']) * 1"
  using throttle_members_have_own_counter
    [of "[(''get'', JFun ''get'' App []), (''limit'', JNum 5)]" 1
        "[(''get'', Call (1::nat)), (''get'', Call 2)]" "[''get'']"]
  by (simp add: cexec_def cstep_def init_def tdefs isFunction_def throttlefn_def)

text \<open>
  Claim C1 as stated fails: the members do not share one counter. With two function
  members and limit 1, one call of each member is feasible and leaves two calls in
  flight at once.
\<close>

theorem throttle_counter_not_shared:
  "functions_of (JObj [(''a'', JFun ''a'' App []), (''b'', JFun ''b'' App [])]) = [''a'', ''b'']
   \<and> cfeasible 1 (\<lambda>k. init) [(''a'', Call (1::nat)), (''b'', Call 2)]
   \<and> total_inflight [''a'', ''b''] (cexec 1 [(''a'', Call (1::nat)), (''b'', Call 2)] (\<lambda>k. init)) = 2
   \<and> \<not> int (total_inflight [''a'', ''b''] (cexec 1 [(''a'', Call (1::nat)), (''b'', Call 2)] (\<lambda>k. init))) \<le> 1"
  by (simp add: functions_of_def pairs_def isFunction_def total_inflight_def cexec_def cstep_def init_def tdefs)

text \<open>
  Claim C4, at the input where the code departs from it. Limit 1; calls A, B and C
  are made, so A runs and B and C wait in this order. A completes, which shifts B off
  the queue and defers \<^verbatim>\<open>run(B)\<close> to the next tick; before that tick the caller calls
  again (D), and D takes the free slot. The deferred \<^verbatim>\<open>run(B)\<close> then finds
  \<^verbatim>\<open>running === max\<close> and pushes B behind C. When D completes, C starts: C, submitted
  after B, has started before B, which still waits.
\<close>

theorem throttlefn_requeue_breaks_fifo:
  "feasible 1 init
     [Call ''A'', Call ''B'', Call ''C'', Done ''A'' Undefined Undefined, Return,
      Call ''D'', Tick, Done ''D'' Undefined Undefined, Return, Tick]
   \<and> queue (exec 1 [Call ''A'', Call ''B'', Call ''C''] init) = [''B'', ''C'']
   \<and> started (exec 1
        [Call ''A'', Call ''B'', Call ''C'', Done ''A'' Undefined Undefined, Return,
         Call ''D'', Tick, Done ''D'' Undefined Undefined, Return, Tick] init)
      = [''A'', ''D'', ''C'']
   \<and> queue (exec 1
        [Call ''A'', Call ''B'', Call ''C'', Done ''A'' Undefined Undefined, Return,
         Call ''D'', Tick, Done ''D'' Undefined Undefined, Return, Tick] init)
      = [''B'']"
  by (simp add: exec_def init_def tdefs)

text \<open>
  Claim C7, as amended. On the completion of a call the intercepting callback first
  forwards the error and the result to the caller's callback, with the running count,
  the queue and the scheduler untouched; once that callback has returned it decrements
  the running count, and then, when the queue is not empty, removes its oldest call
  and hands it to the scheduler: the call is not started at once (\<open>started\<close> is
  unchanged), the scheduler's next turn runs it through \<^verbatim>\<open>run\<close>. So when the limit is
  reached, a call that the caller's callback makes before it returns is queued behind
  the calls that wait already.
\<close>

theorem completion_forwards_before_decrement:
  "forwarded (callback_enter c err val s) = forwarded s @ [(c, err, val)]
   \<and> running (callback_enter c err val s) = running s
   \<and> queue (callback_enter c err val s) = queue s
   \<and> ticks (callback_enter c err val s) = ticks s
   \<and> started (callback_enter c err val s) = started s
   \<and> forwarded (callback_return (callback_enter c err val s)) = forwarded s @ [(c, err, val)]
   \<and> running (callback_return (callback_enter c err val s)) = running s - 1
   \<and> queue (callback_return (callback_enter c err val s)) = drop 1 (queue s)
   \<and> ticks (callback_return (callback_enter c err val s)) = ticks s @ take 1 (queue s)
   \<and> started (callback_return (callback_enter c err val s)) = started s
   \<and> tick mx (s\<lparr>ticks := d # rest\<rparr>) = run mx d (s\<lparr>ticks := rest\<rparr>)
   \<and> (running s = mx \<longrightarrow>
        started (exec mx [Done c err val, Call d, Return] s) = started s
        \<and> running (exec mx [Done c err val, Call d, Return] s) = mx - 1
        \<and> queue (exec mx [Done c err val, Call d, Return] s) = drop 1 (queue s @ [d])
        \<and> ticks (exec mx [Done c err val, Call d, Return] s) = ticks s @ take 1 (queue s @ [d]))"
  by (simp add: exec_def tdefs split: list.splits)

theorem completion_forwards_before_decrement_witness:
  "running (exec 1 [Call ''A'', Call ''B''] init) = 1
   \<and> queue (exec 1 [Done ''A'' Undefined (JStr ''ok''), Call ''B'', Return] (exec 1 [Call ''A'', Call ''B''] init)) = [''B'']
   \<and> ticks (exec 1 [Done ''A'' Undefined (JStr ''ok''), Call ''B'', Return] (exec 1 [Call ''A'', Call ''B''] init)) = [''B'']
   \<and> running (callback_enter ''A'' Undefined (JStr ''ok'') (exec 1 [Call ''A'', Call ''B''] init)) = 1
   \<and> running (callback_return (callback_enter ''A'' Undefined (JStr ''ok'') (exec 1 [Call ''A'', Call ''B''] init))) = 0
   \<and> ticks (callback_return (callback_enter ''A'' Undefined (JStr ''ok'') (exec 1 [Call ''A'', Call ''B''] init))) = [''B'']
   \<and> started (callback_return (callback_enter ''A'' Undefined (JStr ''ok'') (exec 1 [Call ''A'', Call ''B''] init))) = [''A'']"
  using completion_forwards_before_decrement
    [of "''A''" Undefined "JStr ''ok''" "exec 1 [Call ''A'', Call ''B''] init" 1 "''B''" "[]"]
  by (simp add: exec_def init_def tdefs)

text \<open>
  Claim C7 as stated fails: the decrement does not come before the forwarding. With
  limit 1, when the caller's callback of A has been invoked the running count is
  still 1, and a call B made from that callback is queued, not started.
\<close>

theorem completion_decrements_after_forwarding:
  "forwarded (exec 1 [Call ''A'', Done ''A'' Undefined (JStr ''ok'')] init) = [(''A'', Undefined, JStr ''ok'')]
   \<and> running (exec 1 [Call ''A'', Done ''A'' Undefined (JStr ''ok'')] init) = 1
   \<and> started (exec 1 [Call ''A'', Done ''A'' Undefined (JStr ''ok''), Call ''B''] init) = [''A'']
   \<and> queue (exec 1 [Call ''A'', Done ''A'' Undefined (JStr ''ok''), Call ''B''] init) = [''B'']"
  by (simp add: exec_def init_def tdefs)

text \<open>
  Claim C8, at the input where the code departs from it. The collection is
  \<^verbatim>\<open>{ name: 'db', get: function get() {...} }\<close>. \<^verbatim>\<open>nbind\<close> computes the diagnostic name
  \<^verbatim>\<open>db.get\<close> and stores it on the bound function, but the wrapper that \<^verbatim>\<open>throttlefn\<close>
  returns for the member is an anonymous closure without an \<^verbatim>\<open>fname\<close>: the name is lost.
  \<^verbatim>\<open>retry\<close> of the same collection keeps it.
\<close>

theorem throttle_member_drops_fname:
  "get_prop (nbind (JObj [(''name'', JStr ''db''), (''get'', JFun ''get'' App [])]) ''get'') ''fname''
     = JStr ''db.get''
   \<and> get_prop (throttle (JObj [(''name'', JStr ''db''), (''get'', JFun ''get'' App [])]) 1) ''get''
     = JFun [] (ThrottleFn (nbind (JObj [(''name'', JStr ''db''), (''get'', JFun ''get'' App [])]) ''get'') 1) []
   \<and> get_prop (get_prop (throttle (JObj [(''name'', JStr ''db''), (''get'', JFun ''get'' App [])]) 1) ''get'') ''fname''
     = Undefined
   \<and> get_prop (get_prop (throttle (JObj [(''name'', JStr ''db''), (''get'', JFun ''get'' App [])]) 1) ''get'') ''name''
     = JStr []
   \<and> get_prop (get_prop (retry (JObj [(''name'', JStr ''db''), (''get'', JFun ''get'' App [])]) args) ''get'') ''fname''
     = JStr ''db.get''"
  by (simp add: throttle_def throttlefn_def retry_def retryfn_wrapper_def nbind_def bind_def
      extend_js_def object_def pairs_def assign_all_def functions_of_def isFunction_def js_or_def)

text \<open>
  Claim C9. Entering the caller's callback changes neither the running count nor the
  queue nor the scheduler; its return decrements the count and moves the oldest queued
  call to the scheduler; its throwing does neither. So a slot whose callback threw is
  never given back: after any feasible sequence of events from the start, the running
  count is at least the number of callbacks that threw, and the calls in flight plus
  the callbacks that threw are at most \<^verbatim>\<open>max\<close>.
\<close>

theorem throwing_callback_keeps_slot:
  assumes "0 \<le> mx" and "feasible mx init evs"
  shows "running (callback_enter c err val s) = running s
       \<and> queue (callback_enter c err val s) = queue s
       \<and> ticks (callback_enter c err val s) = ticks s
       \<and> running (callback_return s) = running s - 1
       \<and> queue (callback_return s) = drop 1 (queue s)
       \<and> ticks (callback_return s) = ticks s @ take 1 (queue s)
       \<and> running (callback_throw s) = running s
       \<and> queue (callback_throw s) = queue s
       \<and> ticks (callback_throw s) = ticks s
       \<and> int (count_list evs Throw) \<le> running (exec mx evs init)
       \<and> int (length (inflight (exec mx evs init))) + int (count_list evs Throw) \<le> mx"
proof -
  have "accounted (init :: 'a tstate)" by (simp add: accounted_def init_def)
  then have "accounted (exec mx evs init)" using assms(2) by (rule exec_accounted)
  moreover have "leaked (exec mx evs (init :: 'a tstate)) = count_list evs Throw"
    by (simp add: leaked_exec init_def)
  moreover have "running (exec mx evs (init :: 'a tstate)) \<le> mx"
    using assms(1) by (simp add: running_exec_le init_def)
  ultimately have "int (count_list evs Throw) \<le> running (exec mx evs init)
      \<and> int (length (inflight (exec mx evs init))) + int (count_list evs Throw) \<le> mx"
    by (simp add: accounted_def)
  then show ?thesis
    by (simp add: tdefs split: list.splits)
qed

theorem throwing_callback_keeps_slot_witness:
  "(0::int) \<le> 1
   \<and> feasible 1 init [Call ''A'', Call ''B'', Done ''A'' Undefined Undefined, Throw]
   \<and> running (exec 1 [Call ''A'', Call ''B'', Done ''A'' Undefined Undefined, Throw] init) = 1
   \<and> queue (exec 1 [Call ''A'', Call ''B'', Done ''A'' Undefined Undefined, Throw] init) = [''B'']
   \<and> ticks (exec 1 [Call ''A'', Call ''B'', Done ''A'' Undefined Undefined, Throw] init) = []
   \<and> int (length (inflight (exec 1 [Call ''A'', Call ''B'', Done ''A'' Undefined Undefined, Throw] init)))
        + int (count_list [Call ''A'', Call ''B'', Done ''A'' Undefined Undefined, Throw] Throw) \<le> 1"
  using throwing_callback_keeps_slot
    [of 1 "[Call ''A'', Call ''B'', Done ''A'' Undefined Undefined, Throw]" "''A''" Undefined Undefined init]
  by (simp add: exec_def init_def tdefs)

section \<open>Properties of the retry wrapper\<close>

lemma attempts_all_fail:
  assumes "\<forall>k\<le>r. truthy (fst (fn k))" and "max_retries opt = r"
  shows "attempt_index st \<le> r \<Longrightarrow>
         attempts opt fn st tr =
           tr\<lparr>invocations := invocations tr + (r - attempt_index st) + 1,
              callbacks := callbacks tr @
                [(case errors st of [] \<Rightarrow> fst (fn (attempt_index st)) | e # es \<Rightarrow> e, snd (fn r))]\<rparr>"
proof (induction "r - attempt_index st" arbitrary: st tr)
  case 0
  then have i: "attempt_index st = r" by simp
  have t: "truthy (fst (fn r))" using assms(1) by simp
  show ?case
    by (subst attempts.simps)
       (simp add: i t op_retry_def assms(2) first_error_def split: list.splits)
next
  case (Suc n)
  then have lt: "attempt_index st < r" by simp
  have t: "truthy (fst (fn (attempt_index st)))" using assms(1) lt by simp
  let ?st = "st\<lparr>errors := errors st @ [fst (fn (attempt_index st))], attempt_index := attempt_index st + 1\<rparr>"
  have r: "op_retry opt (fst (fn (attempt_index st))) st = (True, ?st)"
    using lt t by (simp add: op_retry_def assms(2))
  have "n = r - attempt_index ?st" using Suc.hyps(2) by simp
  moreover have "attempt_index ?st \<le> r" using lt by simp
  ultimately have ih: "attempts opt fn ?st (tr\<lparr>invocations := invocations tr + 1\<rparr>) =
      (tr\<lparr>invocations := invocations tr + 1\<rparr>)
        \<lparr>invocations := invocations (tr\<lparr>invocations := invocations tr + 1\<rparr>) + (r - attempt_index ?st) + 1,
         callbacks := callbacks (tr\<lparr>invocations := invocations tr + 1\<rparr>) @
           [(case errors ?st of [] \<Rightarrow> fst (fn (attempt_index ?st)) | e # es \<Rightarrow> e, snd (fn r))]\<rparr>"
    by (rule Suc.hyps(1))
  have "attempts opt fn st tr = attempts opt fn ?st (tr\<lparr>invocations := invocations tr + 1\<rparr>)"
    by (subst attempts.simps) (simp add: r)
  also note ih
  finally show ?case
    using lt by (simp split: list.splits)
qed

text \<open>
  Claim C2, as amended. With \<^verbatim>\<open>retries = r\<close> and a function that reports a truthy
  error on each of the attempts 0 to \<open>r\<close>, the wrapper applies the function exactly
  \<open>r + 1\<close> times and then calls the caller's callback exactly once, with the error of
  attempt 0 and with the value argument of the last attempt as the function passed
  it: no result value exactly when the function passes none with its last error.
\<close>

theorem retryfn_exhausted_reports_first_error:
  assumes "\<forall>k\<le>r. truthy (fst (fn k))"
  shows "retryfn fn (JNum (int r)) mn mx fc random
         = \<lparr>invocations = r + 1, callbacks = [(fst (fn 0), snd (fn r))]\<rparr>"
proof -
  have "max_retries (options (JNum (int r)) mn mx fc random) = r"
    by (simp add: max_retries_def options_def def_def)
  with assms show ?thesis
    by (simp add: retryfn_def operation_def attempts_all_fail)
qed

theorem retryfn_exhausted_reports_first_error_witness:
  "truthy (JStr ''first'') \<and> truthy (JStr ''later'')
   \<and> retryfn (\<lambda>k. (if k = 0 then JStr ''first'' else JStr ''later'', Undefined))
        (JNum 2) Undefined Undefined Undefined Undefined
      = \<lparr>invocations = 3, callbacks = [(JStr ''first'', Undefined)]\<rparr>"
  using retryfn_exhausted_reports_first_error
    [of 2 "\<lambda>k. (if k = 0 then JStr ''first'' else JStr ''later'', Undefined)" Undefined Undefined Undefined Undefined]
  by simp

text \<open>
  Claim C2 as stated fails in its last part: a function that fails with
  \<^verbatim>\<open>cb('boom', 'partial')\<close> and no retries left makes the wrapper call back with the
  error and with the value \<^verbatim>\<open>'partial'\<close>, not with no result value.
\<close>

theorem retryfn_forwards_value_with_error:
  "retryfn (\<lambda>k. (JStr ''boom'', JStr ''partial'')) (JNum 0) Undefined Undefined Undefined Undefined
   = \<lparr>invocations = 1, callbacks = [(JStr ''boom'', JStr ''partial'')]\<rparr>"
  by (simp add: retryfn_def options_def def_def operation_def
      attempts.simps [of _ _ "\<lparr>attempt_index = 0, errors = []\<rparr>"]
      op_retry_def max_retries_def first_error_def)

section \<open>Properties of the router\<close>

text \<open>
  The part of claim C3 that the code keeps: in the \<^verbatim>\<open>(req, res, next)\<close> form, when the
  handler completes without an error and with a truthy value, the value is stored as
  \<^verbatim>\<open>res.value\<close> and \<^verbatim>\<open>next()\<close> is called without an argument.
\<close>

lemma truthy_value_is_attached:
  assumes "\<not> truthy err" and "truthy v"
  shows "callbackify trusted ReqResNext [Callback err v] (st\<lparr>res := JObj ps\<rparr>)
           = Inr (st\<lparr>res := JObj (AList.update ''value'' v ps), nexts := nexts st @ [Next]\<rparr>)"
  using assms by (simp add: callback_def call_next_def)

text \<open>
  Claim C3, at the input where the code departs from it. A regular middleware
  \<^verbatim>\<open>function(req, res, next) { next(); }\<close> is adapted and run: the \<^verbatim>\<open>next\<close> it is given is
  the adapter's callback, so it completes with no error and no value. The callback
  takes neither branch (lines 47 to 55), the \<^verbatim>\<open>next\<close> of the request is never called and
  the request goes no further, although the comments of the module say that regular
  middleware is supported. With a truthy value, at the same state, \<^verbatim>\<open>next\<close> is called.
\<close>

theorem no_value_does_not_call_next:
  "callbackify True ReqResNext [Callback Undefined Undefined] \<lparr>req = JObj [], res = JObj [], nexts = []\<rparr>
     = Inr \<lparr>req = JObj [], res = JObj [], nexts = []\<rparr>
   \<and> callbackify False ReqResNext [Callback Undefined Undefined] \<lparr>req = JObj [], res = JObj [], nexts = []\<rparr>
     = Inr \<lparr>req = JObj [], res = JObj [], nexts = []\<rparr>
   \<and> callbackify True ReqResNext [Callback Undefined (JNum 7)] \<lparr>req = JObj [], res = JObj [], nexts = []\<rparr>
     = Inr \<lparr>req = JObj [], res = JObj [(''value'', JNum 7)], nexts = [Next]\<rparr>"
  by (simp add: callback_def call_next_def)

text \<open>
  Claim C10. When the handler completes with a falsy error and a falsy value, the
  callback changes nothing: the value is not attached, \<^verbatim>\<open>next\<close> is not called, and the
  request goes on as if that completion had not happened, exactly as with no value.
  \<^verbatim>\<open>0\<close>, the empty string, \<^verbatim>\<open>false\<close> and \<^verbatim>\<open>null\<close> are falsy.
\<close>

theorem falsy_value_is_not_attached:
  assumes "\<not> truthy err" and "\<not> truthy v"
  shows "callback trusted fm err v st = Inr st
       \<and> callbackify trusted fm (Callback err v # rest) st = callbackify trusted fm rest st
       \<and> callbackify trusted fm [Callback err v] st = Inr st
       \<and> callbackify trusted fm [Callback err v] st = callbackify trusted fm [Callback err Undefined] st
       \<and> \<not> truthy (JNum 0) \<and> \<not> truthy (JStr []) \<and> \<not> truthy (JBool False) \<and> \<not> truthy Null"
  using assms by (simp add: callback_def)

theorem falsy_value_is_not_attached_witness:
  "\<not> truthy Null \<and> \<not> truthy (JNum 0)
   \<and> callbackify False ReqResNext [Callback Null (JNum 0)] \<lparr>req = JObj [], res = JObj [], nexts = []\<rparr>
       = Inr \<lparr>req = JObj [], res = JObj [], nexts = []\<rparr>"
  using falsy_value_is_not_attached
    [of Null "JNum 0" False ReqResNext "\<lparr>req = JObj [], res = JObj [], nexts = []\<rparr>" "[]"]
  by simp

text \<open>
  Claim C5, as amended. When the handler produces one error object, by raising it, by
  reporting it through its callback, or through the domain of the request, the error
  is delivered by exactly one call \<^verbatim>\<open>next(error)\<close>. The router sets \<^verbatim>\<open>bailout\<close> on it
  if and only if the router is untrusted and \<^verbatim>\<open>err.status\<close> and \<^verbatim>\<open>err.statusCode\<close>
  are both falsy; otherwise the error is passed on as it is.
\<close>

theorem single_error_is_delivered_once:
  "callbackify trusted fm [Raise (JObj ps)] st
     = Inr (st\<lparr>nexts := nexts st @
         [NextErr (if \<not> trusted \<and> \<not> truthy (get_prop (JObj ps) ''status'')
                      \<and> \<not> truthy (get_prop (JObj ps) ''statusCode'')
                   then JObj (AList.update ''bailout'' (JBool True) ps) else JObj ps)]\<rparr>)
   \<and> callbackify trusted fm [Callback (JObj ps) v] st = callbackify trusted fm [Raise (JObj ps)] st
   \<and> callback trusted fm (JObj ps) v st = callbackify trusted fm [Raise (JObj ps)] st
   \<and> on_error trusted (JObj ps) st = callbackify trusted fm [Raise (JObj ps)] st
   \<and> catchall trusted [JObj ps] st
     = Inr (st\<lparr>nexts := nexts st @
         [Next, NextErr (if \<not> trusted \<and> \<not> truthy (get_prop (JObj ps) ''status'')
                      \<and> \<not> truthy (get_prop (JObj ps) ''statusCode'')
                   then JObj (AList.update ''bailout'' (JBool True) ps) else JObj ps)]\<rparr>)"
  by (simp add: callback_def error_def on_error_def catchall_def call_next_def)

theorem single_error_is_delivered_once_witness:
  "callbackify True ReqResNext [Raise (JObj [(''message'', JStr ''boom'')])] \<lparr>req = JObj [], res = JObj [], nexts = []\<rparr>
     = Inr \<lparr>req = JObj [], res = JObj [], nexts = [NextErr (JObj [(''message'', JStr ''boom'')])]\<rparr>
   \<and> callbackify False ReqResNext [Callback (JObj [(''message'', JStr ''boom'')]) Undefined]
        \<lparr>req = JObj [], res = JObj [], nexts = []\<rparr>
     = Inr \<lparr>req = JObj [], res = JObj [],
            nexts = [NextErr (JObj [(''message'', JStr ''boom''), (''bailout'', JBool True)])]\<rparr>
   \<and> callbackify False ReqResNext [Callback (JObj [(''statusCode'', JNum 404)]) Undefined]
        \<lparr>req = JObj [], res = JObj [], nexts = []\<rparr>
     = Inr \<lparr>req = JObj [], res = JObj [], nexts = [NextErr (JObj [(''statusCode'', JNum 404)])]\<rparr>"
  using single_error_is_delivered_once
    [of True ReqResNext "[(''message'', JStr ''boom'')]" "\<lparr>req = JObj [], res = JObj [], nexts = []\<rparr>" Undefined]
    single_error_is_delivered_once
    [of False ReqResNext "[(''message'', JStr ''boom'')]" "\<lparr>req = JObj [], res = JObj [], nexts = []\<rparr>" Undefined]
    single_error_is_delivered_once
    [of False ReqResNext "[(''statusCode'', JNum 404)]" "\<lparr>req = JObj [], res = JObj [], nexts = []\<rparr>" Undefined]
  by simp

text \<open>
  Claim C5 as stated fails twice at one input. An untrusted handler reports the error
  \<^verbatim>\<open>{ status: 0 }\<close> through its callback and then raises another: \<^verbatim>\<open>next\<close> receives two
  errors in one request, and both carry \<^verbatim>\<open>bailout\<close> although they have a \<^verbatim>\<open>status\<close>
  field.
\<close>

theorem two_errors_two_deliveries_and_falsy_status:
  "callbackify False ReqResNext
      [Callback (JObj [(''status'', JNum 0)]) Undefined, Raise (JObj [(''status'', JNum 0)])]
      \<lparr>req = JObj [], res = JObj [], nexts = []\<rparr>
   = Inr \<lparr>req = JObj [], res = JObj [],
          nexts = [NextErr (JObj [(''status'', JNum 0), (''bailout'', JBool True)]),
                   NextErr (JObj [(''status'', JNum 0), (''bailout'', JBool True)])]\<rparr>"
  by (simp add: callback_def error_def call_next_def)

end
